theory Spec2Isabelle
  imports Main "HOL-Library.Sublist"
begin

section \<open>JavaScript strings\<close>

text \<open>
  A JavaScript string is a sequence of UTF-16 code units. The embedding uses \<open>string\<close>,
  whose characters are the 256 code units U+0000 .. U+00FF (Latin-1); on these the
  functions below are the ECMAScript ones: \<open>toLowerCase\<close> maps A-Z and the Latin-1
  capitals U+00C0 .. U+00DE (without the multiplication sign U+00D7) to the letter 32
  places further, \<open>trim\<close> strips white space and line terminators, \<open>includes\<close> is the
  substring test and \<open>endsWith\<close> the suffix test.
\<close>

definition upper_chars :: "char list" where
  "upper_chars = ''ABCDEFGHIJKLMNOPQRSTUVWXYZ'' @
     [CHR 0xC0, CHR 0xC1, CHR 0xC2, CHR 0xC3, CHR 0xC4, CHR 0xC5, CHR 0xC6, CHR 0xC7,
      CHR 0xC8, CHR 0xC9, CHR 0xCA, CHR 0xCB, CHR 0xCC, CHR 0xCD, CHR 0xCE, CHR 0xCF,
      CHR 0xD0, CHR 0xD1, CHR 0xD2, CHR 0xD3, CHR 0xD4, CHR 0xD5, CHR 0xD6,
      CHR 0xD8, CHR 0xD9, CHR 0xDA, CHR 0xDB, CHR 0xDC, CHR 0xDD, CHR 0xDE]"

definition lower_chars :: "char list" where
  "lower_chars = ''abcdefghijklmnopqrstuvwxyz'' @
     [CHR 0xE0, CHR 0xE1, CHR 0xE2, CHR 0xE3, CHR 0xE4, CHR 0xE5, CHR 0xE6, CHR 0xE7,
      CHR 0xE8, CHR 0xE9, CHR 0xEA, CHR 0xEB, CHR 0xEC, CHR 0xED, CHR 0xEE, CHR 0xEF,
      CHR 0xF0, CHR 0xF1, CHR 0xF2, CHR 0xF3, CHR 0xF4, CHR 0xF5, CHR 0xF6,
      CHR 0xF8, CHR 0xF9, CHR 0xFA, CHR 0xFB, CHR 0xFC, CHR 0xFD, CHR 0xFE]"

definition toLowerCase_char :: "char \<Rightarrow> char" where
  "toLowerCase_char c =
     (case map_of (zip upper_chars lower_chars) c of Some l \<Rightarrow> l | None \<Rightarrow> c)"

definition toLowerCase :: "string \<Rightarrow> string" where
  "toLowerCase s = map toLowerCase_char s"

definition isWhiteSpace :: "char \<Rightarrow> bool" where
  "isWhiteSpace c \<longleftrightarrow>
     c \<in> set [CHR 0x09, CHR 0x0A, CHR 0x0B, CHR 0x0C, CHR 0x0D, CHR 0x20, CHR 0xA0]"

definition trim :: "string \<Rightarrow> string" where
  "trim s = rev (dropWhile isWhiteSpace (rev (dropWhile isWhiteSpace s)))"

fun startsWith :: "string \<Rightarrow> string \<Rightarrow> bool" where
  "startsWith s [] = True"
| "startsWith [] (p # ps) = False"
| "startsWith (x # xs) (p # ps) = (x = p \<and> startsWith xs ps)"

fun includes_str :: "string \<Rightarrow> string \<Rightarrow> bool" where
  "includes_str [] sub = startsWith [] sub"
| "includes_str (x # xs) sub = (startsWith (x # xs) sub \<or> includes_str xs sub)"

definition endsWith :: "string \<Rightarrow> string \<Rightarrow> bool" where
  "endsWith s suf = startsWith (rev s) (rev suf)"

text \<open>\<open>Array.prototype.join\<close> on an array of strings.\<close>

fun join :: "string \<Rightarrow> string list \<Rightarrow> string" where
  "join sep [] = []"
| "join sep [x] = x"
| "join sep (x # y # ys) = x @ sep @ join sep (y # ys)"

text \<open>
  \<open>parseInt(s, 10)\<close> is only ever applied to the text captured by \<open>(\d+)\<close>, a non-empty
  run of decimal digits. The JavaScript number is represented by the integer it denotes
  (a double holds it exactly below \<open>2^53\<close>).
\<close>

definition digit_chars :: "char list" where
  "digit_chars = ''0123456789''"

definition digit_value :: "char \<Rightarrow> nat" where
  "digit_value c = (case map_of (zip digit_chars [0, 1, 2, 3, 4, 5, 6, 7, 8, 9]) c of
                     Some n \<Rightarrow> n | None \<Rightarrow> 0)"

definition parseInt :: "string \<Rightarrow> nat" where
  "parseInt s = foldl (\<lambda>a c. 10 * a + digit_value c) 0 (takeWhile (\<lambda>c. c \<in> set digit_chars) s)"

section \<open>Regular expressions\<close>

text \<open>
  Every regular expression of the source is a sequence of pieces: a single character
  class, a quantified character class (captured by a group or not), or the end
  assertion \<open>$\<close>. The matcher is the backtracking matcher of ECMAScript written with
  continuations: a piece gets the continuation that matches the rest of the pattern,
  a lazy quantifier tries the continuation before it consumes a character, a greedy
  one after. Without the \<open>u\<close> flag, \<open>/i\<close> compares characters by their upper-case
  mapping, never letting a non-ASCII character meet an ASCII one; \<open>.\<close> excludes the
  line terminators, \<open>\d\<close> is 0-9 and \<open>\s\<close> is white space.
\<close>

datatype cls = Any | Digit | Space | Ch char | Or cls cls

datatype quant = LazyStar | GreedyStar | GreedyPlus | GreedyOpt

datatype piece = One cls | Rep quant cls | Grp quant cls | Eos

definition canonicalize :: "bool \<Rightarrow> char \<Rightarrow> char" where
  "canonicalize ignoreCase c =
     (if ignoreCase
      then (case map_of (zip lower_chars upper_chars) c of Some u \<Rightarrow> u | None \<Rightarrow> c)
      else c)"

fun accepts :: "bool \<Rightarrow> cls \<Rightarrow> char \<Rightarrow> bool" where
  "accepts i Any x = (x \<noteq> CHR 0x0A \<and> x \<noteq> CHR 0x0D)"
| "accepts i Digit x = (x \<in> set digit_chars)"
| "accepts i Space x = isWhiteSpace x"
| "accepts i (Ch c) x = (canonicalize i x = canonicalize i c)"
| "accepts i (Or a b) x = (accepts i a x \<or> accepts i b x)"

fun lazy_star :: "(char \<Rightarrow> bool) \<Rightarrow> (string \<Rightarrow> 'a option) \<Rightarrow> string \<Rightarrow> string
    \<Rightarrow> (string \<times> 'a) option" where
  "lazy_star p k acc [] = map_option (Pair (rev acc)) (k [])"
| "lazy_star p k acc (x # xs) =
     (case k (x # xs) of
        Some r \<Rightarrow> Some (rev acc, r)
      | None \<Rightarrow> if p x then lazy_star p k (x # acc) xs else None)"

fun greedy_star :: "(char \<Rightarrow> bool) \<Rightarrow> (string \<Rightarrow> 'a option) \<Rightarrow> string \<Rightarrow> string
    \<Rightarrow> (string \<times> 'a) option" where
  "greedy_star p k acc [] = map_option (Pair (rev acc)) (k [])"
| "greedy_star p k acc (x # xs) =
     (if p x
      then (case greedy_star p k (x # acc) xs of
              Some r \<Rightarrow> Some r
            | None \<Rightarrow> map_option (Pair (rev acc)) (k (x # xs)))
      else map_option (Pair (rev acc)) (k (x # xs)))"

fun rep :: "quant \<Rightarrow> (char \<Rightarrow> bool) \<Rightarrow> (string \<Rightarrow> 'a option) \<Rightarrow> string
    \<Rightarrow> (string \<times> 'a) option" where
  "rep LazyStar p k s = lazy_star p k [] s"
| "rep GreedyStar p k s = greedy_star p k [] s"
| "rep GreedyPlus p k [] = None"
| "rep GreedyPlus p k (x # xs) = (if p x then greedy_star p k [x] xs else None)"
| "rep GreedyOpt p k [] = map_option (Pair []) (k [])"
| "rep GreedyOpt p k (x # xs) =
     (if p x
      then (case k xs of
              Some r \<Rightarrow> Some ([x], r)
            | None \<Rightarrow> map_option (Pair []) (k (x # xs)))
      else map_option (Pair []) (k (x # xs)))"

text \<open>
  A successful match is the list of the captured groups that follow, in order, and the
  input left after the match.
\<close>

type_synonym match_state = "string list \<times> string"

fun step :: "bool \<Rightarrow> piece \<Rightarrow> (string \<Rightarrow> match_state option) \<Rightarrow> string
    \<Rightarrow> match_state option" where
  "step i (One c) k [] = None"
| "step i (One c) k (x # xs) = (if accepts i c x then k xs else None)"
| "step i (Rep q c) k s = map_option snd (rep q (accepts i c) k s)"
| "step i (Grp q c) k s =
     (case rep q (accepts i c) k s of
        None \<Rightarrow> None
      | Some (run, (caps, rest)) \<Rightarrow> Some (run # caps, rest))"
| "step i Eos k s = (if s = [] then k s else None)"

fun matcher :: "bool \<Rightarrow> piece list \<Rightarrow> string \<Rightarrow> match_state option" where
  "matcher i [] s = Some ([], s)"
| "matcher i (p # ps) s = step i p (matcher i ps) s"

record regex =
  pieces :: "piece list"
  ignoreCase :: bool

text \<open>
  The search of \<open>RegExp.prototype.exec\<close>: the first start position, from the left, at
  which the pattern matches. The result is the match array (the matched text at index 0,
  then the groups) and the input after the match, where a global regex resumes.
\<close>

fun search :: "regex \<Rightarrow> string \<Rightarrow> match_state option" where
  "search r [] =
     (case matcher (ignoreCase r) (pieces r) [] of
        Some (caps, rest) \<Rightarrow> Some ([] # caps, rest)
      | None \<Rightarrow> None)"
| "search r (x # xs) =
     (case matcher (ignoreCase r) (pieces r) (x # xs) of
        Some (caps, rest) \<Rightarrow> Some (take (length (x # xs) - length rest) (x # xs) # caps, rest)
      | None \<Rightarrow> search r xs)"

text \<open>\<open>String.prototype.match\<close> with a regex that has no \<open>g\<close> flag.\<close>

definition js_match :: "string \<Rightarrow> regex \<Rightarrow> string list option" where
  "js_match s r = map_option fst (search r s)"

definition lit :: "string \<Rightarrow> piece list" where
  "lit s = map (\<lambda>c. One (Ch c)) s"

section \<open>The data contract\<close>

text \<open>
  The interfaces \<open>Column\<close>, \<open>Table\<close> and \<open>DataContract\<close> of the package data-contract. An
  object used as a dictionary is the list of its entries in the order in which \<open>for ... in\<close>
  and \<open>Object.keys\<close> enumerate them; \<open>businessRules\<close> is optional. The contract's \<open>tools\<close>
  are of no concern to the query builder and are left out.
\<close>

record Column =
  businessName :: string
  description :: string
  dataType :: string
  businessRules :: "string list option"

record Table =
  businessName :: string
  description :: string
  columns :: "(string \<times> Column) list"

record DataContract =
  tables :: "(string \<times> Table) list"
  abbreviations :: "(string \<times> string) list option"

section \<open>Errors and results\<close>

datatype BaseErrorCode =
    UNKNOWN_ERROR | INVALID_INPUT | UNAUTHORIZED | FORBIDDEN | NOT_FOUND
  | INTERNAL_SERVER_ERROR | BAD_GATEWAY | SERVICE_UNAVAILABLE | GATEWAY_TIMEOUT
  | UNSUPPORTED_OPERATION | INVALID_SESSION | SESSION_NOT_FOUND | INVALID_TRANSPORT

record McpError =
  code :: BaseErrorCode
  message :: string

text \<open>An element of \<open>params\<close> is a string or a number.\<close>

datatype param = PString string | PNumber nat

record Filter =
  column :: string
  operator :: string
  filter_value :: string

record ParsedIntent =
  target :: string
  columns :: "string list"
  filters :: "Filter list"

record QueryOutput =
  sql_query :: string
  params :: "param list"

definition unsupported_message :: string where
  "unsupported_message =
     ''That request is not supported by the query builder yet. Try rephrasing or pick from the supported set.''"

definition unsupported :: McpError where
  "unsupported = \<lparr>code = UNSUPPORTED_OPERATION, message = unsupported_message\<rparr>"

section \<open>parseDescription\<close>

text \<open>
  The six entries of \<open>supportedPatterns\<close>, in the order of the source. Each regex has the
  \<open>i\<close> flag and no other. An \<open>entities\<close> function that throws returns \<open>Inl\<close>.
\<close>

definition regex_show_me :: regex where
  "regex_show_me =
     \<lparr>pieces = lit ''show me the '' @ [Grp LazyStar Any] @ lit '' for the '' @
                [Grp LazyStar Any] @ lit '' with id '' @ [Grp GreedyPlus Digit],
      ignoreCase = True\<rparr>"

definition entities_show_me :: "string list \<Rightarrow> McpError + ParsedIntent" where
  "entities_show_me matches =
     Inr \<lparr>target = trim (matches ! 2),
          columns = [trim (matches ! 1)],
          filters = [\<lparr>column = ''id'', operator = ''='', filter_value = matches ! 3\<rparr>]\<rparr>"

definition regex_which_sales_orders :: regex where
  "regex_which_sales_orders =
     \<lparr>pieces = lit ''which sales orders are '' @ [Grp LazyStar Any] @
                [Rep GreedyOpt (Ch CHR ''?''), Eos],
      ignoreCase = True\<rparr>"

definition entities_which_sales_orders :: "string list \<Rightarrow> McpError + ParsedIntent" where
  "entities_which_sales_orders matches =
     Inr \<lparr>target = ''sales orders'',
          columns = [''id''],
          filters = [\<lparr>column = ''status'', operator = ''='',
                      filter_value = trim (matches ! 1)\<rparr>]\<rparr>"

definition regex_list_all :: regex where
  "regex_list_all =
     \<lparr>pieces = lit ''list all '' @ [Grp LazyStar Any] @ lit '' in the '' @
                [One (Or (Ch (CHR 0x27)) (Ch (CHR 0x22))), Grp LazyStar Any,
                 One (Or (Ch (CHR 0x27)) (Ch (CHR 0x22)))],
      ignoreCase = True\<rparr>"

definition entities_list_all :: "string list \<Rightarrow> McpError + ParsedIntent" where
  "entities_list_all matches =
     Inr \<lparr>target = trim (matches ! 2), columns = [''*''], filters = []\<rparr>"

definition regex_what_is_the_name :: regex where
  "regex_what_is_the_name =
     \<lparr>pieces = lit ''what is the name of the '' @ [Grp LazyStar Any] @ lit '' with id '' @
                [Grp GreedyPlus Digit, Rep GreedyOpt (Ch CHR ''?''), Eos],
      ignoreCase = True\<rparr>"

definition entities_what_is_the_name :: "string list \<Rightarrow> McpError + ParsedIntent" where
  "entities_what_is_the_name matches =
     Inr \<lparr>target = trim (matches ! 1),
          columns = [''name''],
          filters = [\<lparr>column = ''id'', operator = ''='',
                      filter_value = trim (matches ! 2)\<rparr>]\<rparr>"

definition regex_quantity_sold :: regex where
  "regex_quantity_sold =
     \<lparr>pieces = lit ''what was the quantity of each product sold in order number '' @
                [Grp GreedyPlus Digit, Rep GreedyOpt (Ch CHR ''?''), Eos],
      ignoreCase = True\<rparr>"

definition regex_customer_who_placed :: regex where
  "regex_customer_who_placed =
     \<lparr>pieces = lit ''find the name of the customer who placed order number '' @
                [Grp GreedyPlus Digit, Rep GreedyOpt (Ch CHR ''?''), Eos],
      ignoreCase = True\<rparr>"

definition entities_unsupported :: "string list \<Rightarrow> McpError + ParsedIntent" where
  "entities_unsupported matches = Inl unsupported"

definition supportedPatterns :: "(regex \<times> (string list \<Rightarrow> McpError + ParsedIntent)) list" where
  "supportedPatterns =
     [(regex_show_me, entities_show_me),
      (regex_which_sales_orders, entities_which_sales_orders),
      (regex_list_all, entities_list_all),
      (regex_what_is_the_name, entities_what_is_the_name),
      (regex_quantity_sold, entities_unsupported),
      (regex_customer_who_placed, entities_unsupported)]"

text \<open>
  The loop over the patterns: the first regex with a match decides; \<open>Inr None\<close> is the
  \<open>null\<close> returned when none matches.
\<close>

fun try_patterns :: "(regex \<times> (string list \<Rightarrow> McpError + ParsedIntent)) list \<Rightarrow> string
    \<Rightarrow> McpError + ParsedIntent option" where
  "try_patterns [] desc = Inr None"
| "try_patterns ((rx, entities) # rest) desc =
     (case js_match desc rx of
        Some matches \<Rightarrow> map_sum id Some (entities matches)
      | None \<Rightarrow> try_patterns rest desc)"

definition parseDescription :: "string \<Rightarrow> McpError + ParsedIntent option" where
  "parseDescription desc = try_patterns supportedPatterns desc"

section \<open>Name resolution\<close>

definition findTableByBusinessName :: "DataContract \<Rightarrow> string \<Rightarrow> (string \<times> Table) option" where
  "findTableByBusinessName contract name =
     find (\<lambda>(tableName, table).
             includes_str (toLowerCase (Table.businessName table)) (toLowerCase name))
          (tables contract)"

definition findColumnByBusinessName :: "Table \<Rightarrow> string \<Rightarrow> (string \<times> Column) option" where
  "findColumnByBusinessName table name =
     (let lowerBusinessName = toLowerCase name;
          by_id = (if lowerBusinessName = ''id''
                   then find (\<lambda>(columnName, col).
                                endsWith columnName ''_id'' \<or> columnName = ''id'')
                             (Table.columns table)
                   else None);
          by_status = (if lowerBusinessName = ''status''
                       then find (\<lambda>(columnName, col).
                                    endsWith columnName ''_stat'' \<or>
                                    endsWith columnName ''_status'')
                                 (Table.columns table)
                       else None)
      in case by_id of
           Some r \<Rightarrow> Some r
         | None \<Rightarrow>
             (case by_status of
                Some r \<Rightarrow> Some r
              | None \<Rightarrow>
                  find (\<lambda>(columnName, col).
                          includes_str (toLowerCase (Column.businessName col)) lowerBusinessName)
                       (Table.columns table)))"

section \<open>What a match consumes\<close>

text \<open>
  A quantified class that succeeds has consumed a run of characters of its class and
  handed the remaining input to its continuation; a match never gives back more input
  than it was given, and a pattern that starts with \<open>(\d+)\<close> consumes at least one
  character. The last fact is why the \<open>exec\<close> loop of the value mapper ends.
\<close>

lemma lazy_star_sound:
  "lazy_star p k acc s = Some (run, r) \<Longrightarrow>
     \<exists>u s'. run = rev acc @ u \<and> s = u @ s' \<and> k s' = Some r \<and> (\<forall>c\<in>set u. p c)"
proof (induction s arbitrary: acc)
  case Nil
  then show ?case by auto
next
  case (Cons x xs)
  show ?case
  proof (cases "k (x # xs)")
    case (Some r')
    with Cons.prems show ?thesis by auto
  next
    case None
    with Cons.prems have px: "p x" and rec: "lazy_star p k (x # acc) xs = Some (run, r)"
      by (auto split: if_splits)
    from Cons.IH [OF rec] obtain u s' where
      "run = rev (x # acc) @ u" "xs = u @ s'" "k s' = Some r" "\<forall>c\<in>set u. p c"
      by blast
    with px have "run = rev acc @ (x # u) \<and> x # xs = (x # u) @ s' \<and> k s' = Some r
        \<and> (\<forall>c\<in>set (x # u). p c)"
      by simp
    then show ?thesis by blast
  qed
qed

lemma greedy_star_sound:
  "greedy_star p k acc s = Some (run, r) \<Longrightarrow>
     \<exists>u s'. run = rev acc @ u \<and> s = u @ s' \<and> k s' = Some r \<and> (\<forall>c\<in>set u. p c)"
proof (induction s arbitrary: acc)
  case Nil
  then show ?case by auto
next
  case (Cons x xs)
  show ?case
  proof (cases "p x \<and> greedy_star p k (x # acc) xs \<noteq> None")
    case True
    with Cons.prems have rec: "greedy_star p k (x # acc) xs = Some (run, r)"
      by (auto split: option.splits)
    from Cons.IH [OF rec] obtain u s' where
      "run = rev (x # acc) @ u" "xs = u @ s'" "k s' = Some r" "\<forall>c\<in>set u. p c"
      by blast
    with True have "run = rev acc @ (x # u) \<and> x # xs = (x # u) @ s' \<and> k s' = Some r
        \<and> (\<forall>c\<in>set (x # u). p c)"
      by simp
    then show ?thesis by blast
  next
    case False
    with Cons.prems have "run = rev acc" "k (x # xs) = Some r"
      by (auto split: option.splits if_splits)
    then have "run = rev acc @ [] \<and> x # xs = [] @ (x # xs) \<and> k (x # xs) = Some r
        \<and> (\<forall>c\<in>set []. p c)"
      by simp
    then show ?thesis by blast
  qed
qed

lemma rep_sound:
  assumes "rep q p k s = Some (run, r)"
  shows "\<exists>s'. s = run @ s' \<and> k s' = Some r \<and> (\<forall>c\<in>set run. p c) \<and> (q = GreedyPlus \<longrightarrow> run \<noteq> [])"
proof (cases q)
  case LazyStar
  with assms lazy_star_sound [of p k "[]" s run r] show ?thesis by auto
next
  case GreedyStar
  with assms greedy_star_sound [of p k "[]" s run r] show ?thesis by auto
next
  case GreedyPlus
  show ?thesis
  proof (cases s)
    case Nil
    with assms GreedyPlus show ?thesis by simp
  next
    case (Cons x xs)
    with assms GreedyPlus have px: "p x" and g: "greedy_star p k [x] xs = Some (run, r)"
      by (auto split: if_splits)
    from greedy_star_sound [OF g] Cons px GreedyPlus show ?thesis by auto
  qed
next
  case GreedyOpt
  with assms show ?thesis
    by (cases s) (auto split: if_splits option.splits)
qed

lemma step_length:
  assumes k: "\<And>s' caps' rest'. k s' = Some (caps', rest') \<Longrightarrow> length rest' \<le> length s'"
    and st: "step i pc k s = Some (caps, rest)"
  shows "length rest \<le> length s"
proof (cases pc)
  case (One c)
  with st show ?thesis
    by (cases s) (auto split: if_splits dest: k)
next
  case (Rep q c)
  with st obtain run caps0 where "rep q (accepts i c) k s = Some (run, (caps0, rest))"
    by auto
  from rep_sound [OF this] show ?thesis by (auto dest: k)
next
  case (Grp q c)
  with st obtain run caps0 where "rep q (accepts i c) k s = Some (run, (caps0, rest))"
    by (auto split: option.splits)
  from rep_sound [OF this] show ?thesis by (auto dest: k)
next
  case Eos
  with st show ?thesis by (auto split: if_splits dest: k)
qed

lemma matcher_length:
  "matcher i ps s = Some (caps, rest) \<Longrightarrow> length rest \<le> length s"
proof (induction ps arbitrary: s caps rest)
  case Nil
  then show ?case by simp
next
  case (Cons pc ps)
  from Cons.prems have "step i pc (matcher i ps) s = Some (caps, rest)" by simp
  then show ?case by (rule step_length [rotated]) (rule Cons.IH)
qed

lemma matcher_plus_consumes:
  assumes "matcher i (Grp GreedyPlus c # ps) s = Some (caps, rest)"
  shows "length rest < length s"
proof -
  from assms obtain run caps0 where
    r: "rep GreedyPlus (accepts i c) (matcher i ps) s = Some (run, (caps0, rest))"
    by (auto split: option.splits)
  from rep_sound [OF r] obtain s' where
    "s = run @ s'" "matcher i ps s' = Some (caps0, rest)" "run \<noteq> []"
    by auto
  with matcher_length [of i ps s' caps0 rest] show ?thesis
    by (cases run) auto
qed

lemma search_plus_consumes:
  assumes "pieces r = Grp GreedyPlus c # ps" and "search r s = Some (m, rest)"
  shows "length rest < length s"
  using assms(2)
proof (induction s)
  case Nil
  then obtain caps where "matcher (ignoreCase r) (pieces r) [] = Some (caps, rest)"
    by (auto split: option.splits)
  with assms(1) matcher_plus_consumes [of "ignoreCase r" c ps "[]" caps rest]
  show ?case by simp
next
  case (Cons x xs)
  show ?case
  proof (cases "matcher (ignoreCase r) (pieces r) (x # xs)")
    case None
    with Cons show ?thesis by auto
  next
    case (Some a)
    with Cons.prems obtain caps where
      "matcher (ignoreCase r) (pieces r) (x # xs) = Some (caps, rest)"
      by (cases a) auto
    with assms(1) matcher_plus_consumes [of "ignoreCase r" c ps "x # xs" caps rest]
    show ?thesis by simp
  qed
qed

section \<open>Value mapping\<close>

text \<open>
  The regex \<open>/(\d+):\s*'(.*?)'/g\<close> is created anew for every rule, so its \<open>lastIndex\<close>
  starts at 0; each successful \<open>exec\<close> sets it to the end of the match, where the next
  call resumes. The loop carries the input that is left instead of the index.
\<close>

definition regex_rule :: regex where
  "regex_rule =
     \<lparr>pieces = [Grp GreedyPlus Digit, One (Ch CHR '':''), Rep GreedyStar Space,
                 One (Ch (CHR 0x27)), Grp LazyStar Any, One (Ch (CHR 0x27))],
      ignoreCase = False\<rparr>"

function exec_loop :: "string \<Rightarrow> string \<Rightarrow> nat option" where
  "exec_loop lowerValue rule =
     (case search regex_rule rule of
        None \<Rightarrow> None
      | Some (match, rest) \<Rightarrow>
          if toLowerCase (match ! 2) = lowerValue then Some (parseInt (match ! 1))
          else exec_loop lowerValue rest)"
  by pat_completeness auto
termination
proof (relation "measure (\<lambda>(lowerValue, rule). length rule)")
  show "wf (measure (\<lambda>(lowerValue, rule). length rule))" by simp
next
  fix lowerValue rule :: string and x2 :: match_state and match rest
  assume "search regex_rule rule = Some x2" and "(match, rest) = x2"
  then have "search regex_rule rule = Some (match, rest)" by simp
  then have "length rest < length rule"
    by (rule search_plus_consumes [rotated]) (simp add: regex_rule_def)
  then show "((lowerValue, rest), (lowerValue, rule))
      \<in> measure (\<lambda>(lowerValue, rule). length rule)"
    by simp
qed

fun rules_loop :: "string \<Rightarrow> string list \<Rightarrow> nat option" where
  "rules_loop lowerValue [] = None"
| "rules_loop lowerValue (rule # rules) =
     (case exec_loop lowerValue rule of
        Some n \<Rightarrow> Some n
      | None \<Rightarrow> rules_loop lowerValue rules)"

text \<open>
  \<open>findColumnValueFromBusinessRule\<close> reads nothing of its column but \<open>businessRules\<close>,
  which its only caller has found to be a non-empty array; the model takes that array.
\<close>

definition findColumnValueFromBusinessRule :: "string list \<Rightarrow> string \<Rightarrow> param" where
  "findColumnValueFromBusinessRule rules v =
     (case rules_loop (toLowerCase v) rules of
        Some n \<Rightarrow> PNumber n
      | None \<Rightarrow> PString v)"

text \<open>
  The value a filter contributes to \<open>params\<close>: the guard on \<open>businessRules\<close> and the call
  of the mapper inside the \<open>forEach\<close> of \<open>buildQueryFromDescriptionLogic\<close>.
\<close>

definition filterValue :: "Column \<Rightarrow> string \<Rightarrow> param" where
  "filterValue col v =
     (case businessRules col of
        None \<Rightarrow> PString v
      | Some rules \<Rightarrow>
          if length rules > 0 then findColumnValueFromBusinessRule rules v else PString v)"

section \<open>buildQueryFromDescriptionLogic\<close>

text \<open>
  The function takes the contract and an input object whose only field is the
  description; the model takes the description itself. A thrown \<open>McpError\<close>, which
  rejects the promise the function returns, is the result \<open>Inl\<close>. The function is
  modelled in the order of its statements: the parse, the table lookup, the map over
  the requested columns, the loop over the filters, the assembly of the text.
\<close>

definition table_not_found :: "string \<Rightarrow> McpError" where
  "table_not_found name =
     \<lparr>code = INVALID_INPUT,
      message = ''Could not find a table matching '' @ [CHR 0x27] @ name @ [CHR 0x27] @ ''.''\<rparr>"

definition column_not_found :: "string \<Rightarrow> string \<Rightarrow> McpError" where
  "column_not_found colName physicalName =
     \<lparr>code = INVALID_INPUT,
      message = ''Could not find a column matching '' @ [CHR 0x27] @ colName @ [CHR 0x27] @
                '' in table '' @ [CHR 0x27] @ physicalName @ [CHR 0x27] @ ''.''\<rparr>"

text \<open>The callback of \<open>parsed.columns.map\<close>.\<close>

definition selectColumn :: "string \<Rightarrow> Table \<Rightarrow> string \<Rightarrow> McpError + string" where
  "selectColumn physicalName table colName =
     (if colName = ''*'' then Inr (join '', '' (map fst (Table.columns table)))
      else (case findColumnByBusinessName table colName of
              None \<Rightarrow> Inl (column_not_found colName physicalName)
            | Some (columnName, col) \<Rightarrow> Inr columnName))"

fun selectColumns :: "string \<Rightarrow> Table \<Rightarrow> string list \<Rightarrow> McpError + string list" where
  "selectColumns physicalName table [] = Inr []"
| "selectColumns physicalName table (colName # colNames) =
     (case selectColumn physicalName table colName of
        Inl e \<Rightarrow> Inl e
      | Inr c \<Rightarrow>
          (case selectColumns physicalName table colNames of
             Inl e \<Rightarrow> Inl e
           | Inr cs \<Rightarrow> Inr (c # cs)))"

text \<open>
  The \<open>forEach\<close> over the filters, with the two arrays it pushes to as the state.
\<close>

fun filters_loop :: "string \<Rightarrow> Table \<Rightarrow> Filter list \<Rightarrow> string list \<times> param list
    \<Rightarrow> McpError + string list \<times> param list" where
  "filters_loop physicalName table [] (whereClauses, ps) = Inr (whereClauses, ps)"
| "filters_loop physicalName table (f # fs) (whereClauses, ps) =
     (case findColumnByBusinessName table (column f) of
        None \<Rightarrow> Inl (column_not_found (column f) physicalName)
      | Some (columnName, col) \<Rightarrow>
          filters_loop physicalName table fs
            (whereClauses @ [columnName @ '' '' @ operator f @ '' ?''],
             ps @ [filterValue col (filter_value f)]))"

definition assemble :: "string list \<Rightarrow> string \<Rightarrow> string list \<Rightarrow> string" where
  "assemble selected physicalName whereClauses =
     ''SELECT '' @ join '', '' selected @ '' FROM '' @ physicalName @
     (if length whereClauses > 0 then '' WHERE '' @ join '' AND '' whereClauses else []) @
     '';''"

definition buildQueryFromDescriptionLogic :: "DataContract \<Rightarrow> string \<Rightarrow> McpError + QueryOutput" where
  "buildQueryFromDescriptionLogic contract desc =
     (case parseDescription desc of
        Inl e \<Rightarrow> Inl e
      | Inr None \<Rightarrow> Inl unsupported
      | Inr (Some parsed) \<Rightarrow>
          (case findTableByBusinessName contract (target parsed) of
             None \<Rightarrow> Inl (table_not_found (target parsed))
           | Some (physicalName, table) \<Rightarrow>
               (case selectColumns physicalName table (ParsedIntent.columns parsed) of
                  Inl e \<Rightarrow> Inl e
                | Inr selected \<Rightarrow>
                    (case filters_loop physicalName table (filters parsed) ([], []) of
                       Inl e \<Rightarrow> Inl e
                     | Inr (whereClauses, ps) \<Rightarrow>
                         Inr \<lparr>sql_query = assemble selected physicalName whereClauses,
                              params = ps\<rparr>))))"

section \<open>Reference contract\<close>

text \<open>
  The contract of the concrete scenarios: table \<open>cust_mst\<close> (business name Customer) with
  the columns \<open>c_id\<close> (business name id) and \<open>c_name\<close> (Customer Name), and table
  \<open>so_hdr\<close> (sales orders) with the columns \<open>ord_stat\<close>, which carries the business rule
  \<open>5: 'cancelled'\<close>, and \<open>ord_id\<close>.
\<close>

definition reference_contract :: DataContract where
  "reference_contract =
     \<lparr>tables =
        [(''cust_mst'',
          \<lparr>Table.businessName = ''Customer'',
           description = ''Stores master information about customers.'',
           columns =
             [(''c_id'',
               \<lparr>Column.businessName = ''id'', description = ''Unique identifier for a customer.'',
                dataType = ''INTEGER'', businessRules = Some []\<rparr>),
              (''c_name'',
               \<lparr>Column.businessName = ''Customer Name'', description = ''Full name of the customer.'',
                dataType = ''VARCHAR(100)'', businessRules = Some []\<rparr>)]\<rparr>),
         (''so_hdr'',
          \<lparr>Table.businessName = ''sales orders'',
           description = ''Sales order headers.'',
           columns =
             [(''ord_stat'',
               \<lparr>Column.businessName = ''Order Status'', description = ''Status of the order.'',
                dataType = ''INTEGER'', businessRules = Some [''5: 'cancelled'' @ [CHR 0x27]]\<rparr>),
              (''ord_id'',
               \<lparr>Column.businessName = ''Order ID'', description = ''Unique identifier for an order.'',
                dataType = ''INTEGER'', businessRules = Some []\<rparr>)]\<rparr>)],
      abbreviations = Some []\<rparr>"

text \<open>
  A contract with a question mark in a physical column name.
\<close>

definition question_mark_contract :: DataContract where
  "question_mark_contract =
     \<lparr>tables =
        [(''cust_mst'',
          \<lparr>Table.businessName = ''Customer'',
           description = ''Stores master information about customers.'',
           columns =
             [(''c_id'',
               \<lparr>Column.businessName = ''Customer ID'', description = ''Unique identifier for a customer.'',
                dataType = ''INTEGER'', businessRules = Some []\<rparr>),
              (''vip?'',
               \<lparr>Column.businessName = ''VIP flag'', description = ''Whether the customer is a VIP.'',
                dataType = ''BOOLEAN'', businessRules = Some []\<rparr>)]\<rparr>)],
      abbreviations = Some []\<rparr>"

section \<open>The specification's notions\<close>










text \<open>
  A pattern matches the full description when it matches from the first character to
  the last: the pattern followed by the end assertion, tried at the start only.
\<close>

definition full_match :: "regex \<Rightarrow> string \<Rightarrow> bool" where
  "full_match r s \<longleftrightarrow> matcher (ignoreCase r) (pieces r @ [Eos]) s \<noteq> None"

text \<open>
  For the proof that matching ignores case: the characters that a class of the patterns
  singles out (line terminators, digits, white space), none of which is a letter, and a
  character map applied to the captures and the remaining input of a match.
\<close>

definition special_char :: "char \<Rightarrow> bool" where
  "special_char c \<longleftrightarrow>
     c = CHR 0x0A \<or> c = CHR 0x0D \<or> c \<in> set digit_chars \<or> isWhiteSpace c"

definition map_state :: "(char \<Rightarrow> char) \<Rightarrow> match_state \<Rightarrow> match_state" where
  "map_state f st = (map (map f) (fst st), map f (snd st))"

section \<open>Resolution and assembly, taken apart\<close>

lemma find_Some_mem: "find P xs = Some x \<Longrightarrow> x \<in> set xs \<and> P x"
  by (induction xs) (auto split: if_splits)

lemma findTable_mem:
  "findTableByBusinessName c n = Some (tn, t) \<Longrightarrow> (tn, t) \<in> set (tables c)"
  unfolding findTableByBusinessName_def by (drule find_Some_mem) simp

lemma findColumn_mem:
  "findColumnByBusinessName t n = Some (cn, col) \<Longrightarrow> (cn, col) \<in> set (Table.columns t)"
  unfolding findColumnByBusinessName_def Let_def
  by (auto split: option.splits if_splits dest: find_Some_mem)

lemma selectColumns_all2:
  "selectColumns tn t cs = Inr sel \<Longrightarrow> list_all2 (\<lambda>c s. selectColumn tn t c = Inr s) cs sel"
  by (induction cs arbitrary: sel) (auto split: sum.splits)

lemma filters_loop_char:
  "filters_loop tn t fs (w0, p0) = Inr (w, ps) \<Longrightarrow>
     \<exists>cols. list_all2 (\<lambda>f cc. findColumnByBusinessName t (column f) = Some cc) fs cols \<and>
       w = w0 @ map (\<lambda>(f, cc). fst cc @ '' '' @ operator f @ '' ?'') (zip fs cols) \<and>
       ps = p0 @ map (\<lambda>(f, cc). filterValue (snd cc) (filter_value f)) (zip fs cols)"
proof (induction fs arbitrary: w0 p0)
  case Nil
  then show ?case by simp
next
  case (Cons f fs)
  from Cons.prems obtain cn col where
    fc: "findColumnByBusinessName t (column f) = Some (cn, col)" and
    rec: "filters_loop tn t fs (w0 @ [cn @ '' '' @ operator f @ '' ?''],
            p0 @ [filterValue col (filter_value f)]) = Inr (w, ps)"
    by (auto split: option.splits)
  from Cons.IH [OF rec] obtain cols where
    a: "list_all2 (\<lambda>f cc. findColumnByBusinessName t (column f) = Some cc) fs cols" and
    b: "w = (w0 @ [cn @ '' '' @ operator f @ '' ?'']) @
          map (\<lambda>(f, cc). fst cc @ '' '' @ operator f @ '' ?'') (zip fs cols)" and
    c: "ps = (p0 @ [filterValue col (filter_value f)]) @
          map (\<lambda>(f, cc). filterValue (snd cc) (filter_value f)) (zip fs cols)"
    by blast
  show ?case
    by (rule exI [of _ "(cn, col) # cols"]) (simp add: a b c fc)
qed

lemma entities_shape:
  assumes "(rx, ent) \<in> set supportedPatterns" and "ent m = Inr p"
  shows "(\<exists>c. ParsedIntent.columns p = [c]) \<and>
         (filters p = [] \<or>
          (\<exists>v. filters p = [\<lparr>column = ''id'', operator = ''='', filter_value = v\<rparr>]) \<or>
          (\<exists>v. filters p = [\<lparr>column = ''status'', operator = ''='', filter_value = v\<rparr>]))"
  using assms
  by (auto simp: supportedPatterns_def entities_show_me_def entities_which_sales_orders_def
      entities_list_all_def entities_what_is_the_name_def entities_unsupported_def)

lemma try_patterns_from:
  "try_patterns ps d = Inr (Some p) \<Longrightarrow>
     \<exists>rx ent m. (rx, ent) \<in> set ps \<and> js_match d rx = Some m \<and> ent m = Inr p"
proof (induction ps)
  case Nil
  then show ?case by simp
next
  case (Cons a ps)
  obtain rx ent where a: "a = (rx, ent)" by (cases a)
  show ?case
  proof (cases "js_match d rx")
    case None
    with Cons a show ?thesis by auto
  next
    case (Some m)
    with Cons.prems a have "map_sum id Some (ent m) = Inr (Some p)" by simp
    then have "ent m = Inr p" by (cases "ent m") auto
    with Some a show ?thesis by auto
  qed
qed

lemma parse_shape:
  assumes "parseDescription d = Inr (Some p)"
  shows "(\<exists>c. ParsedIntent.columns p = [c]) \<and>
         (filters p = [] \<or>
          (\<exists>v. filters p = [\<lparr>column = ''id'', operator = ''='', filter_value = v\<rparr>]) \<or>
          (\<exists>v. filters p = [\<lparr>column = ''status'', operator = ''='', filter_value = v\<rparr>]))"
proof -
  from assms obtain rx ent m where "(rx, ent) \<in> set supportedPatterns" "ent m = Inr p"
    unfolding parseDescription_def by (blast dest: try_patterns_from)
  then show ?thesis by (rule entities_shape)
qed

lemma build_success:
  assumes "buildQueryFromDescriptionLogic c d = Inr out"
  shows "\<exists>p tn t sel w ps.
           parseDescription d = Inr (Some p) \<and>
           findTableByBusinessName c (target p) = Some (tn, t) \<and>
           selectColumns tn t (ParsedIntent.columns p) = Inr sel \<and>
           filters_loop tn t (filters p) ([], []) = Inr (w, ps) \<and>
           out = \<lparr>sql_query = assemble sel tn w, params = ps\<rparr>"
  using assms unfolding buildQueryFromDescriptionLogic_def
  by (auto split: sum.splits option.splits prod.splits)

lemma join_single: "join sep [x] = x" by simp

lemma notin_join:
  "c \<notin> set sep \<Longrightarrow> (\<forall>x\<in>set xs. c \<notin> set x) \<Longrightarrow> c \<notin> set (join sep xs)"
  by (induction sep xs rule: join.induct) auto

lemma count_list_notin: "c \<notin> set xs \<Longrightarrow> count_list xs c = 0"
  by (induction xs) auto

lemma selectColumn_cases:
  assumes "selectColumn tn t cn = Inr s"
  shows "s = join '', '' (map fst (Table.columns t)) \<or> s \<in> fst ` set (Table.columns t)"
proof (cases "cn = ''*''")
  case True
  with assms show ?thesis by (simp add: selectColumn_def)
next
  case False
  with assms obtain col where "findColumnByBusinessName t cn = Some (s, col)"
    by (auto simp: selectColumn_def split: option.splits)
  then have "(s, col) \<in> set (Table.columns t)" by (rule findColumn_mem)
  then show ?thesis by force
qed

lemma where_clauses_eq:
  "length fs = length cols \<Longrightarrow> \<forall>f\<in>set fs. operator f = ''='' \<Longrightarrow>
     map (\<lambda>(f, cc). fst cc @ '' '' @ operator f @ '' ?'') (zip fs cols) =
     map (\<lambda>cc. fst cc @ '' = ?'') cols"
  by (induction fs cols rule: list_induct2) auto

lemma build_success_shape:
  assumes "buildQueryFromDescriptionLogic c d = Inr out"
  shows "\<exists>p tn t cn s cols.
           parseDescription d = Inr (Some p) \<and>
           findTableByBusinessName c (target p) = Some (tn, t) \<and>
           (tn, t) \<in> set (tables c) \<and>
           ParsedIntent.columns p = [cn] \<and>
           selectColumn tn t cn = Inr s \<and>
           list_all2 (\<lambda>f cc. findColumnByBusinessName t (column f) = Some cc) (filters p) cols \<and>
           (\<forall>f\<in>set (filters p). operator f = ''='') \<and>
           length (filters p) \<le> 1 \<and>
           sql_query out = assemble [s] tn (map (\<lambda>cc. fst cc @ '' = ?'') cols) \<and>
           params out = map (\<lambda>(f, cc). filterValue (snd cc) (filter_value f)) (zip (filters p) cols)"
proof -
  from build_success [OF assms] obtain p tn t sel w ps where
    p: "parseDescription d = Inr (Some p)" and
    ft: "findTableByBusinessName c (target p) = Some (tn, t)" and
    sc: "selectColumns tn t (ParsedIntent.columns p) = Inr sel" and
    fl: "filters_loop tn t (filters p) ([], []) = Inr (w, ps)" and
    out: "out = \<lparr>sql_query = assemble sel tn w, params = ps\<rparr>"
    by blast
  from parse_shape [OF p] obtain cn where cn: "ParsedIntent.columns p = [cn]" and
    fs: "filters p = [] \<or>
          (\<exists>v. filters p = [\<lparr>column = ''id'', operator = ''='', filter_value = v\<rparr>]) \<or>
          (\<exists>v. filters p = [\<lparr>column = ''status'', operator = ''='', filter_value = v\<rparr>])"
    by blast
  from fs have ops: "\<forall>f\<in>set (filters p). operator f = ''=''" and len: "length (filters p) \<le> 1"
    by auto
  from sc cn obtain s where s: "selectColumn tn t cn = Inr s" and sel: "sel = [s]"
    by (auto split: sum.splits)
  from filters_loop_char [OF fl] obtain cols where
    a: "list_all2 (\<lambda>f cc. findColumnByBusinessName t (column f) = Some cc) (filters p) cols" and
    w: "w = map (\<lambda>(f, cc). fst cc @ '' '' @ operator f @ '' ?'') (zip (filters p) cols)" and
    ps: "ps = map (\<lambda>(f, cc). filterValue (snd cc) (filter_value f)) (zip (filters p) cols)"
    by auto
  from a have l: "length (filters p) = length cols" by (rule list_all2_lengthD)
  have "w = map (\<lambda>cc. fst cc @ '' = ?'') cols"
    unfolding w using l ops by (rule where_clauses_eq)
  with p ft findTable_mem [OF ft] cn s a ops len out sel ps show ?thesis
    by auto
qed

lemma filters_loop_complete:
  "list_all2 (\<lambda>f cc. findColumnByBusinessName t (column f) = Some cc) fs cols \<Longrightarrow>
   filters_loop tn t fs (w0, p0) =
     Inr (w0 @ map (\<lambda>(f, cc). fst cc @ '' '' @ operator f @ '' ?'') (zip fs cols),
          p0 @ map (\<lambda>(f, cc). filterValue (snd cc) (filter_value f)) (zip fs cols))"
proof (induction fs cols arbitrary: w0 p0 rule: list_all2_induct)
  case Nil
  then show ?case by simp
next
  case (Cons f fs cc cols)
  obtain cn col where cc: "cc = (cn, col)" by (cases cc)
  with Cons show ?case by simp
qed

lemma build_from_parts:
  assumes "parseDescription d = Inr (Some p)"
    and "findTableByBusinessName c (target p) = Some (tn, t)"
    and "selectColumns tn t (ParsedIntent.columns p) = Inr sel"
    and "filters_loop tn t (filters p) ([], []) = Inr (w, ps)"
  shows "buildQueryFromDescriptionLogic c d = Inr \<lparr>sql_query = assemble sel tn w, params = ps\<rparr>"
  using assms by (simp add: buildQueryFromDescriptionLogic_def)

lemma list_all2_same_columns:
  assumes "list_all2 (\<lambda>f cc. findColumnByBusinessName t (column f) = Some cc) fs cols"
    and "map column fs' = map column fs"
  shows "list_all2 (\<lambda>f cc. findColumnByBusinessName t (column f) = Some cc) fs' cols"
proof -
  from assms(2) have len: "length fs' = length fs" by (rule map_eq_imp_length_eq)
  have "\<forall>i<length fs'. column (fs' ! i) = column (fs ! i)"
  proof (intro allI impI)
    fix i assume i: "i < length fs'"
    with len have "map column fs' ! i = column (fs' ! i)" "map column fs ! i = column (fs ! i)"
      by simp_all
    with assms(2) show "column (fs' ! i) = column (fs ! i)" by simp
  qed
  with assms(1) len show ?thesis
    by (auto simp: list_all2_conv_all_nth)
qed

lemma count_list_app: "count_list (xs @ ys) c = count_list xs c + count_list ys c"
  by (induction xs) auto

lemma reference_run_customer:
  "buildQueryFromDescriptionLogic reference_contract
     ''Show me the Customer Name for the customer with ID 4.'' =
     Inr \<lparr>sql_query = ''SELECT c_name FROM cust_mst WHERE c_id = ?;'',
          params = [PString ''4'']\<rparr>"
  by code_simp

lemma reference_run_cancelled:
  "buildQueryFromDescriptionLogic reference_contract ''Which sales orders are cancelled?'' =
     Inr \<lparr>sql_query = ''SELECT ord_id FROM so_hdr WHERE ord_stat = ?;'',
          params = [PNumber 5]\<rparr>"
  by code_simp

section \<open>Library notions for the string functions, and the scan of a rule\<close>



















section \<open>Matching ignores case, and searches the whole description\<close>

lemma case_pairs:
  "\<forall>(u, l)\<in>set (zip upper_chars lower_chars).
     canonicalize True l = u \<and> canonicalize True u = u \<and> \<not> special_char l \<and> \<not> special_char u"
  by code_simp

lemma toLowerCase_char_cases:
  "toLowerCase_char x = x \<or>
   (canonicalize True (toLowerCase_char x) = x \<and> canonicalize True x = x \<and>
    \<not> special_char (toLowerCase_char x) \<and> \<not> special_char x)"
proof (cases "map_of (zip upper_chars lower_chars) x")
  case None
  then show ?thesis by (simp add: toLowerCase_char_def)
next
  case (Some l)
  then have "(x, l) \<in> set (zip upper_chars lower_chars)" by (rule map_of_SomeD)
  with case_pairs have "canonicalize True l = x \<and> canonicalize True x = x \<and>
      \<not> special_char l \<and> \<not> special_char x"
    by fastforce
  moreover from Some have "toLowerCase_char x = l" by (simp add: toLowerCase_char_def)
  ultimately show ?thesis by simp
qed

lemma accepts_lower: "accepts True c (toLowerCase_char x) = accepts True c x"
proof (induction c)
  case Any
  from toLowerCase_char_cases [of x] show ?case by (auto simp: special_char_def)
next
  case Digit
  from toLowerCase_char_cases [of x] show ?case by (auto simp: special_char_def)
next
  case Space
  from toLowerCase_char_cases [of x] show ?case by (auto simp: special_char_def)
next
  case (Ch c)
  from toLowerCase_char_cases [of x] show ?case by auto
next
  case (Or a b)
  then show ?case by simp
qed

lemma lazy_star_map:
  assumes k: "\<And>s. k' (map f s) = map_option g (k s)" and p: "\<And>x. p (f x) = p x"
  shows "lazy_star p k' (map f acc) (map f s) =
           map_option (\<lambda>(run, r). (map f run, g r)) (lazy_star p k acc s)"
proof (induction s arbitrary: acc)
  case Nil
  from k [of "[]"] show ?case by (cases "k []") (simp_all add: rev_map)
next
  case (Cons x xs)
  show ?case
  proof (cases "k (x # xs)")
    case None
    with k [of "x # xs"] have "k' (f x # map f xs) = None" by simp
    with None Cons [of "x # acc"] show ?thesis by (simp add: p)
  next
    case (Some r)
    with k [of "x # xs"] have "k' (f x # map f xs) = Some (g r)" by simp
    with Some show ?thesis by (simp add: rev_map)
  qed
qed

lemma greedy_star_map:
  assumes k: "\<And>s. k' (map f s) = map_option g (k s)" and p: "\<And>x. p (f x) = p x"
  shows "greedy_star p k' (map f acc) (map f s) =
           map_option (\<lambda>(run, r). (map f run, g r)) (greedy_star p k acc s)"
proof (induction s arbitrary: acc)
  case Nil
  from k [of "[]"] show ?case by (cases "k []") (simp_all add: rev_map)
next
  case (Cons x xs)
  have here: "map_option (Pair (rev (map f acc))) (k' (f x # map f xs)) =
      map_option (\<lambda>(run, r). (map f run, g r)) (map_option (Pair (rev acc)) (k (x # xs)))"
    using k [of "x # xs"] by (cases "k (x # xs)") (simp_all add: rev_map)
  show ?case
  proof (cases "p x")
    case False
    with here show ?thesis by (simp add: p)
  next
    case True
    show ?thesis
    proof (cases "greedy_star p k (x # acc) xs")
      case None
      with Cons [of "x # acc"] have "greedy_star p k' (f x # map f acc) (map f xs) = None"
        by simp
      with None True here show ?thesis by (simp add: p)
    next
      case (Some a)
      with Cons [of "x # acc"] have "greedy_star p k' (f x # map f acc) (map f xs) =
          Some ((\<lambda>(run, r). (map f run, g r)) a)"
        by simp
      with Some True show ?thesis by (simp add: p)
    qed
  qed
qed

lemma rep_map:
  assumes k: "\<And>s. k' (map f s) = map_option g (k s)" and p: "\<And>x. p (f x) = p x"
  shows "rep q p k' (map f s) = map_option (\<lambda>(run, r). (map f run, g r)) (rep q p k s)"
proof (cases q)
  case LazyStar
  with lazy_star_map [of k' f g k p "[]" s, OF k p] show ?thesis by simp
next
  case GreedyStar
  with greedy_star_map [of k' f g k p "[]" s, OF k p] show ?thesis by simp
next
  case GreedyPlus
  show ?thesis
  proof (cases s)
    case Nil
    with GreedyPlus show ?thesis by simp
  next
    case (Cons x xs)
    with GreedyPlus greedy_star_map [of k' f g k p "[x]" xs, OF k p] show ?thesis
      by (simp add: p)
  qed
next
  case GreedyOpt
  show ?thesis
  proof (cases s)
    case Nil
    with GreedyOpt k [of "[]"] show ?thesis by (cases "k []") simp_all
  next
    case (Cons x xs)
    have here: "map_option (Pair []) (k' (f x # map f xs)) =
        map_option (\<lambda>(run, r). (map f run, g r)) (map_option (Pair []) (k (x # xs)))"
      using k [of "x # xs"] by (cases "k (x # xs)") simp_all
    show ?thesis
    proof (cases "p x")
      case False
      with GreedyOpt Cons here show ?thesis by (simp add: p)
    next
      case True
      show ?thesis
      proof (cases "k xs")
        case None
        with k [of xs] have "k' (map f xs) = None" by simp
        with None True GreedyOpt Cons here show ?thesis by (simp add: p)
      next
        case (Some r)
        with k [of xs] have "k' (map f xs) = Some (g r)" by simp
        with Some True GreedyOpt Cons show ?thesis by (simp add: p)
      qed
    qed
  qed
qed

lemma step_map:
  assumes k: "\<And>s. k' (map toLowerCase_char s) = map_option (map_state toLowerCase_char) (k s)"
  shows "step True pc k' (map toLowerCase_char s) =
           map_option (map_state toLowerCase_char) (step True pc k s)"
proof (cases pc)
  case (One c)
  show ?thesis
  proof (cases s)
    case Nil
    with One show ?thesis by simp
  next
    case (Cons x xs)
    with One k [of xs] show ?thesis by (simp add: accepts_lower)
  qed
next
  case (Rep q c)
  from rep_map [of k' toLowerCase_char "map_state toLowerCase_char" k "accepts True c" q s,
      OF k accepts_lower]
  have "rep q (accepts True c) k' (map toLowerCase_char s) =
      map_option (\<lambda>(run, r). (map toLowerCase_char run, map_state toLowerCase_char r))
        (rep q (accepts True c) k s)" .
  with Rep show ?thesis
    by (cases "rep q (accepts True c) k s") (auto simp: map_state_def)
next
  case (Grp q c)
  from rep_map [of k' toLowerCase_char "map_state toLowerCase_char" k "accepts True c" q s,
      OF k accepts_lower]
  have "rep q (accepts True c) k' (map toLowerCase_char s) =
      map_option (\<lambda>(run, r). (map toLowerCase_char run, map_state toLowerCase_char r))
        (rep q (accepts True c) k s)" .
  with Grp show ?thesis
    by (cases "rep q (accepts True c) k s") (auto simp: map_state_def)
next
  case Eos
  show ?thesis
  proof (cases s)
    case Nil
    with Eos k [of "[]"] show ?thesis by simp
  next
    case (Cons x xs)
    with Eos show ?thesis by simp
  qed
qed

lemma matcher_map:
  "matcher True ps (map toLowerCase_char s) =
     map_option (map_state toLowerCase_char) (matcher True ps s)"
proof (induction ps arbitrary: s)
  case Nil
  show ?case by (simp add: map_state_def)
next
  case (Cons pc ps)
  have "step True pc (matcher True ps) (map toLowerCase_char s) =
      map_option (map_state toLowerCase_char) (step True pc (matcher True ps) s)"
    by (rule step_map) (rule Cons)
  then show ?case by simp
qed

lemma search_None_lower:
  assumes "ignoreCase r = True"
  shows "search r (map toLowerCase_char s) = None \<longleftrightarrow> search r s = None"
proof (induction s)
  case Nil
  from matcher_map [of "pieces r" "[]"] assms show ?case
    by (cases "matcher True (pieces r) []") (auto simp: map_state_def split: option.splits)
next
  case (Cons x xs)
  from matcher_map [of "pieces r" "x # xs"] assms Cons show ?case
    by (cases "matcher True (pieces r) (x # xs)") (auto simp: map_state_def split: option.splits)
qed

lemma js_match_case_insensitive:
  assumes "ignoreCase r = True" and "toLowerCase d' = toLowerCase d"
  shows "js_match d' r = None \<longleftrightarrow> js_match d r = None"
proof -
  from assms(1) have 1: "js_match d' r = None \<longleftrightarrow> js_match (toLowerCase d') r = None"
    by (simp add: js_match_def toLowerCase_def search_None_lower)
  from assms(1) have 2: "js_match (toLowerCase d) r = None \<longleftrightarrow> js_match d r = None"
    by (simp add: js_match_def toLowerCase_def search_None_lower)
  from 1 2 show ?thesis by (simp add: assms(2))
qed

lemma search_None_iff:
  "search r s = None \<longleftrightarrow>
     (\<forall>n\<le>length s. matcher (ignoreCase r) (pieces r) (drop n s) = None)"
proof (induction s)
  case Nil
  show ?case by (auto split: option.splits)
next
  case (Cons x xs)
  have "(\<forall>n\<le>length (x # xs). matcher (ignoreCase r) (pieces r) (drop n (x # xs)) = None) \<longleftrightarrow>
        matcher (ignoreCase r) (pieces r) (x # xs) = None \<and>
        (\<forall>n\<le>length xs. matcher (ignoreCase r) (pieces r) (drop n xs) = None)"
  proof
    assume a: "\<forall>n\<le>length (x # xs). matcher (ignoreCase r) (pieces r) (drop n (x # xs)) = None"
    from a [rule_format, of 0] have 1: "matcher (ignoreCase r) (pieces r) (x # xs) = None" by simp
    have "\<forall>n\<le>length xs. matcher (ignoreCase r) (pieces r) (drop n xs) = None"
    proof (intro allI impI)
      fix n assume "n \<le> length xs"
      with a [rule_format, of "Suc n"] show "matcher (ignoreCase r) (pieces r) (drop n xs) = None"
        by simp
    qed
    with 1 show "matcher (ignoreCase r) (pieces r) (x # xs) = None \<and>
        (\<forall>n\<le>length xs. matcher (ignoreCase r) (pieces r) (drop n xs) = None)" ..
  next
    assume b: "matcher (ignoreCase r) (pieces r) (x # xs) = None \<and>
        (\<forall>n\<le>length xs. matcher (ignoreCase r) (pieces r) (drop n xs) = None)"
    show "\<forall>n\<le>length (x # xs). matcher (ignoreCase r) (pieces r) (drop n (x # xs)) = None"
    proof (intro allI impI)
      fix n assume "n \<le> length (x # xs)"
      with b show "matcher (ignoreCase r) (pieces r) (drop n (x # xs)) = None"
        by (cases n) auto
    qed
  qed
  with Cons show ?case by (auto split: option.splits)
qed

lemma try_patterns_first:
  "(\<exists>ps1 rx ent ps2 m.
      ps = ps1 @ (rx, ent) # ps2 \<and> (\<forall>(r, e)\<in>set ps1. js_match d r = None) \<and>
      js_match d rx = Some m \<and> try_patterns ps d = map_sum id Some (ent m)) \<or>
   ((\<forall>(r, e)\<in>set ps. js_match d r = None) \<and> try_patterns ps d = Inr None)"
proof (induction ps)
  case Nil
  show ?case by simp
next
  case (Cons a ps)
  obtain rx ent where a: "a = (rx, ent)" by (cases a)
  show ?case
  proof (cases "js_match d rx")
    case (Some m)
    with a have "a # ps = [] @ (rx, ent) # ps \<and> (\<forall>(r, e)\<in>set []. js_match d r = None) \<and>
      js_match d rx = Some m \<and> try_patterns (a # ps) d = map_sum id Some (ent m)"
      by simp
    then show ?thesis by (intro disjI1 exI)
  next
    case None
    from Cons show ?thesis
    proof
      assume "\<exists>ps1 rx' ent' ps2 m.
        ps = ps1 @ (rx', ent') # ps2 \<and> (\<forall>(r, e)\<in>set ps1. js_match d r = None) \<and>
        js_match d rx' = Some m \<and> try_patterns ps d = map_sum id Some (ent' m)"
      then obtain ps1 rx' ent' ps2 m where
        "ps = ps1 @ (rx', ent') # ps2" "\<forall>(r, e)\<in>set ps1. js_match d r = None"
        "js_match d rx' = Some m" "try_patterns ps d = map_sum id Some (ent' m)"
        by (elim exE conjE)
      with None a have "a # ps = (a # ps1) @ (rx', ent') # ps2 \<and>
        (\<forall>(r, e)\<in>set (a # ps1). js_match d r = None) \<and>
        js_match d rx' = Some m \<and> try_patterns (a # ps) d = map_sum id Some (ent' m)"
        by simp
      then show ?thesis by (intro disjI1 exI)
    next
      assume "(\<forall>(r, e)\<in>set ps. js_match d r = None) \<and> try_patterns ps d = Inr None"
      with None a show ?thesis by simp
    qed
  qed
qed

section \<open>Digits between fixed text\<close>

text \<open>
  A pattern that starts with a letter finds nothing in a run of digits, so a search
  that fails before and after the run fails on the whole.
\<close>

lemma canonicalize_digit:
  assumes "x \<in> set digit_chars"
  shows "canonicalize i x = x"
proof (cases i)
  case True
  have "\<forall>x\<in>set digit_chars. canonicalize True x = x" by code_simp
  with assms True show ?thesis by simp
next
  case False
  then show ?thesis by (simp add: canonicalize_def)
qed

lemma search_skip:
  assumes "\<forall>x\<in>set N. \<not> accepts (ignoreCase r) c x" and "pieces r = One c # ps"
  shows "search r (N @ t) = search r t"
  using assms(1)
proof (induction N)
  case Nil
  show ?case by simp
next
  case (Cons x N)
  then have "matcher (ignoreCase r) (pieces r) (x # N @ t) = None"
    by (simp add: assms(2))
  with Cons show ?case by simp
qed

lemma digits_reject_letter:
  assumes "set N \<subseteq> set digit_chars" and "canonicalize True c \<notin> set digit_chars"
  shows "\<forall>x\<in>set N. \<not> accepts True (Ch c) x"
proof
  fix x assume "x \<in> set N"
  with assms(1) have d: "x \<in> set digit_chars" by auto
  then have "canonicalize True x = x" by (rule canonicalize_digit)
  with d assms(2) show "\<not> accepts True (Ch c) x" by auto
qed

lemma no_match_around_digits:
  assumes h: "ignoreCase r = True \<and> pieces r = One (Ch c) # ps \<and>
              canonicalize True c \<notin> set digit_chars"
    and d: "set N \<subseteq> set digit_chars"
    and pre: "\<And>t. search r (pre @ t) = search r t"
    and post: "search r post = None"
  shows "js_match (pre @ N @ post) r = None"
proof -
  from h have i: "ignoreCase r = True" and p: "pieces r = One (Ch c) # ps"
    and c: "canonicalize True c \<notin> set digit_chars"
    by simp_all
  from digits_reject_letter [OF d c] i have "\<forall>x\<in>set N. \<not> accepts (ignoreCase r) (Ch c) x"
    by simp
  then have "search r (N @ post) = search r post" using p by (rule search_skip)
  with pre [of "N @ post"] post show ?thesis by (simp add: js_match_def)
qed

lemma head_show_me:
  "ignoreCase regex_show_me = True \<and>
   pieces regex_show_me = One (Ch CHR ''s'') # tl (pieces regex_show_me) \<and>
   canonicalize True CHR ''s'' \<notin> set digit_chars"
  by code_simp

lemma head_which_sales_orders:
  "ignoreCase regex_which_sales_orders = True \<and>
   pieces regex_which_sales_orders = One (Ch CHR ''w'') # tl (pieces regex_which_sales_orders) \<and>
   canonicalize True CHR ''w'' \<notin> set digit_chars"
  by code_simp

lemma head_list_all:
  "ignoreCase regex_list_all = True \<and>
   pieces regex_list_all = One (Ch CHR ''l'') # tl (pieces regex_list_all) \<and>
   canonicalize True CHR ''l'' \<notin> set digit_chars"
  by code_simp

lemma head_what_is_the_name:
  "ignoreCase regex_what_is_the_name = True \<and>
   pieces regex_what_is_the_name = One (Ch CHR ''w'') # tl (pieces regex_what_is_the_name) \<and>
   canonicalize True CHR ''w'' \<notin> set digit_chars"
  by code_simp

lemma unsupported_without_query_pattern:
  assumes "js_match d regex_show_me = None" "js_match d regex_which_sales_orders = None"
    "js_match d regex_list_all = None" "js_match d regex_what_is_the_name = None"
  shows "buildQueryFromDescriptionLogic c d = Inl unsupported"
  using assms
  by (simp add: buildQueryFromDescriptionLogic_def parseDescription_def supportedPatterns_def
      entities_unsupported_def split: option.splits)

lemma quantity_question:
  assumes d: "set N \<subseteq> set digit_chars"
  shows "buildQueryFromDescriptionLogic c
           (''What was the quantity of each product sold in order number '' @ N @ ''?'') =
         Inl unsupported"
proof (rule unsupported_without_query_pattern)
  show "js_match (''What was the quantity of each product sold in order number '' @ N @ ''?'')
          regex_show_me = None"
    by (rule no_match_around_digits [OF head_show_me d]; code_simp)
  show "js_match (''What was the quantity of each product sold in order number '' @ N @ ''?'')
          regex_which_sales_orders = None"
    by (rule no_match_around_digits [OF head_which_sales_orders d]; code_simp)
  show "js_match (''What was the quantity of each product sold in order number '' @ N @ ''?'')
          regex_list_all = None"
    by (rule no_match_around_digits [OF head_list_all d]; code_simp)
  show "js_match (''What was the quantity of each product sold in order number '' @ N @ ''?'')
          regex_what_is_the_name = None"
    by (rule no_match_around_digits [OF head_what_is_the_name d]; code_simp)
qed

lemma customer_question:
  assumes d: "set N \<subseteq> set digit_chars"
  shows "buildQueryFromDescriptionLogic c
           (''Find the name of the customer who placed order number '' @ N @ ''.'') =
         Inl unsupported"
proof (rule unsupported_without_query_pattern)
  show "js_match (''Find the name of the customer who placed order number '' @ N @ ''.'')
          regex_show_me = None"
    by (rule no_match_around_digits [OF head_show_me d]; code_simp)
  show "js_match (''Find the name of the customer who placed order number '' @ N @ ''.'')
          regex_which_sales_orders = None"
    by (rule no_match_around_digits [OF head_which_sales_orders d]; code_simp)
  show "js_match (''Find the name of the customer who placed order number '' @ N @ ''.'')
          regex_list_all = None"
    by (rule no_match_around_digits [OF head_list_all d]; code_simp)
  show "js_match (''Find the name of the customer who placed order number '' @ N @ ''.'')
          regex_what_is_the_name = None"
    by (rule no_match_around_digits [OF head_what_is_the_name d]; code_simp)
qed

lemma reference_join_questions:
  "parseDescription ''What was the quantity of each product sold in order number 1001?'' =
     Inl unsupported \<and>
   parseDescription ''Find the name of the customer who placed order number 1004.'' = Inr None"
  by code_simp

section \<open>The reference scenarios\<close>

text \<open>
  C3. On the reference contract, the description
  "Show me the Customer Name for the customer with ID 4." yields exactly the query
  \<open>SELECT c_name FROM cust_mst WHERE c_id = ?;\<close> with the parameters \<open>["4"]\<close> (the
  string), and "Which sales orders are cancelled?" yields exactly
  \<open>SELECT ord_id FROM so_hdr WHERE ord_stat = ?;\<close> with the parameters \<open>[5]\<close> (the
  number).
\<close>

theorem reference_scenarios:
  "buildQueryFromDescriptionLogic reference_contract
     ''Show me the Customer Name for the customer with ID 4.'' =
     Inr \<lparr>sql_query = ''SELECT c_name FROM cust_mst WHERE c_id = ?;'',
          params = [PString ''4'']\<rparr> \<and>
   buildQueryFromDescriptionLogic reference_contract ''Which sales orders are cancelled?'' =
     Inr \<lparr>sql_query = ''SELECT ord_id FROM so_hdr WHERE ord_stat = ?;'',
          params = [PNumber 5]\<rparr>"
  using reference_run_customer reference_run_cancelled by (rule conjI)

section \<open>Determinism\<close>



section \<open>Where literals and identifiers go\<close>

text \<open>
  C1. Whenever \<open>buildQueryFromDescriptionLogic\<close> succeeds, the query text is made of fixed
  keywords and of physical names found in the contract: the table name is a key of
  \<open>contract.tables\<close> returned by the table lookup, the selected column is a key of that
  table's columns (or all its keys, comma-joined, for the wildcard), and each WHERE clause
  names a key of that table's columns. The filter values appear in \<open>params\<close> only; the query
  text is the same for every description that parses to the same target, the same
  requested columns and the same filter columns, whatever the filter values are.
\<close>

theorem literals_only_in_params:
  assumes "buildQueryFromDescriptionLogic contract desc = Inr out"
  shows "\<exists>p tn t sel cols.
      parseDescription desc = Inr (Some p) \<and>
      findTableByBusinessName contract (target p) = Some (tn, t) \<and>
      (tn, t) \<in> set (tables contract) \<and>
      (sel = join '', '' (map fst (Table.columns t)) \<or> sel \<in> fst ` set (Table.columns t)) \<and>
      length cols = length (filters p) \<and>
      set cols \<subseteq> set (Table.columns t) \<and>
      sql_query out =
        ''SELECT '' @ sel @ '' FROM '' @ tn @
        (if cols = [] then []
         else '' WHERE '' @ join '' AND '' (map (\<lambda>cc. fst cc @ '' = ?'') cols)) @ '';'' \<and>
      params out = map (\<lambda>(f, cc). filterValue (snd cc) (filter_value f)) (zip (filters p) cols) \<and>
      (\<forall>desc' p'. parseDescription desc' = Inr (Some p') \<and> target p' = target p \<and>
           ParsedIntent.columns p' = ParsedIntent.columns p \<and>
           map column (filters p') = map column (filters p) \<longrightarrow>
         (\<exists>out'. buildQueryFromDescriptionLogic contract desc' = Inr out' \<and>
                 sql_query out' = sql_query out))"
proof -
  from build_success_shape [OF assms] obtain p :: ParsedIntent and tn t cn s cols where
    p: "parseDescription desc = Inr (Some p)" and
    ft: "findTableByBusinessName contract (target p) = Some (tn, t)" and
    mem: "(tn, t) \<in> set (tables contract)" and
    cn: "ParsedIntent.columns p = [cn]" and
    s: "selectColumn tn t cn = Inr s" and
    res: "list_all2 (\<lambda>f cc. findColumnByBusinessName t (column f) = Some cc) (filters p) cols" and
    sql: "sql_query out = assemble [s] tn (map (\<lambda>cc. fst cc @ '' = ?'') cols)" and
    par: "params out = map (\<lambda>(f, cc). filterValue (snd cc) (filter_value f)) (zip (filters p) cols)"
    by blast
  from res have len: "length cols = length (filters p)" by (simp add: list_all2_lengthD)
  have sub: "set cols \<subseteq> set (Table.columns t)"
  proof
    fix cc assume "cc \<in> set cols"
    then obtain i where i: "i < length cols" "cols ! i = cc" by (auto simp: in_set_conv_nth)
    with res have "findColumnByBusinessName t (column (filters p ! i)) = Some cc"
      by (auto simp: list_all2_conv_all_nth)
    then show "cc \<in> set (Table.columns t)" by (cases cc) (auto dest: findColumn_mem)
  qed
  have sql': "sql_query out =
        ''SELECT '' @ s @ '' FROM '' @ tn @
        (if cols = [] then []
         else '' WHERE '' @ join '' AND '' (map (\<lambda>cc. fst cc @ '' = ?'') cols)) @ '';''"
    unfolding sql assemble_def by simp
  have indep: "\<exists>out'. buildQueryFromDescriptionLogic contract desc' = Inr out' \<and>
                 sql_query out' = sql_query out"
    if p': "parseDescription desc' = Inr (Some p')" and tg: "target p' = target p"
      and cs: "ParsedIntent.columns p' = ParsedIntent.columns p"
      and fc: "map column (filters p') = map column (filters p)" for desc' p'
  proof -
    from parse_shape [OF p'] have ops: "\<forall>f\<in>set (filters p'). operator f = ''=''" by auto
    from res fc have res': "list_all2 (\<lambda>f cc. findColumnByBusinessName t (column f) = Some cc)
        (filters p') cols"
      by (rule list_all2_same_columns)
    then have len': "length (filters p') = length cols" by (rule list_all2_lengthD)
    have fl: "filters_loop tn t (filters p') ([], []) =
        Inr (map (\<lambda>cc. fst cc @ '' = ?'') cols,
             map (\<lambda>(f, cc). filterValue (snd cc) (filter_value f)) (zip (filters p') cols))"
      using filters_loop_complete [OF res', of tn "[]" "[]"] where_clauses_eq [OF len' ops]
      by simp
    from cs cn s have sc: "selectColumns tn t (ParsedIntent.columns p') = Inr [s]" by simp
    from ft tg have ft': "findTableByBusinessName contract (target p') = Some (tn, t)" by simp
    from build_from_parts [OF p' ft' sc fl] sql show ?thesis by simp
  qed
  from p ft mem selectColumn_cases [OF s] len sub sql' par indep show ?thesis
    by blast
qed

theorem literals_only_in_params_witness:
  "\<exists>p tn t sel cols.
      parseDescription ''Which sales orders are cancelled?'' = Inr (Some p) \<and>
      (tn, t) \<in> set (tables reference_contract) \<and>
      length cols = length (filters p) \<and>
      set cols \<subseteq> set (Table.columns t) \<and>
      ''SELECT ord_id FROM so_hdr WHERE ord_stat = ?;'' =
        ''SELECT '' @ sel @ '' FROM '' @ tn @
        (if cols = [] then []
         else '' WHERE '' @ join '' AND '' (map (\<lambda>cc. fst cc @ '' = ?'') cols)) @ '';'' \<and>
      [PNumber 5] = map (\<lambda>(f, cc). filterValue (snd cc) (filter_value f)) (zip (filters p) cols)"
proof -
  note e = reference_run_cancelled
  from literals_only_in_params [OF e] obtain p :: ParsedIntent and tn t sel cols where
    "parseDescription ''Which sales orders are cancelled?'' = Inr (Some p)"
    "(tn, t) \<in> set (tables reference_contract)"
    "length cols = length (filters p)"
    "set cols \<subseteq> set (Table.columns t)"
    "sql_query \<lparr>sql_query = ''SELECT ord_id FROM so_hdr WHERE ord_stat = ?;'',
          params = [PNumber 5]\<rparr> =
        ''SELECT '' @ sel @ '' FROM '' @ tn @
        (if cols = [] then []
         else '' WHERE '' @ join '' AND '' (map (\<lambda>cc. fst cc @ '' = ?'') cols)) @ '';''"
    "params \<lparr>sql_query = ''SELECT ord_id FROM so_hdr WHERE ord_stat = ?;'',
          params = [PNumber 5]\<rparr> =
       map (\<lambda>(f, cc). filterValue (snd cc) (filter_value f)) (zip (filters p) cols)"
    by blast
  then show ?thesis
    by (intro exI [of _ p] exI [of _ tn] exI [of _ t] exI [of _ sel] exI [of _ cols]) simp
qed

section \<open>Placeholders and parameters\<close>

text \<open>
  C2, as the spec states it: for every contract and description on which the call
  succeeds, the number of question marks in the query text equals the number of
  parameters. The physical names of the contract are copied into the query text as they
  are, so a name with a question mark in it breaks the count: with a column called
  \<open>vip?\<close> the query has two question marks and one parameter.
\<close>

theorem placeholder_parity_counterexample:
  "buildQueryFromDescriptionLogic question_mark_contract
     ''show me the vip flag for the customer with id 4'' =
     Inr \<lparr>sql_query = ''SELECT vip? FROM cust_mst WHERE c_id = ?;'', params = [PString ''4'']\<rparr> \<and>
   count_list ''SELECT vip? FROM cust_mst WHERE c_id = ?;'' CHR ''?'' \<noteq> length [PString ''4'']"
  by code_simp

text \<open>
  C2, amended: for every contract whose physical table and column names contain no
  question mark, and every description on which the call succeeds, the number of
  question marks in the query text equals the number of parameters, and the i-th
  parameter is the mapped value of the i-th filter.
\<close>

theorem placeholder_parity:
  assumes names: "\<forall>(tn, t)\<in>set (tables contract).
      CHR ''?'' \<notin> set tn \<and> (\<forall>(cn, col)\<in>set (Table.columns t). CHR ''?'' \<notin> set cn)"
    and ok: "buildQueryFromDescriptionLogic contract desc = Inr out"
  shows "count_list (sql_query out) CHR ''?'' = length (params out) \<and>
     (\<exists>p tn t. parseDescription desc = Inr (Some p) \<and>
        findTableByBusinessName contract (target p) = Some (tn, t) \<and>
        length (params out) = length (filters p) \<and>
        (\<forall>i<length (filters p). \<exists>cn col.
           findColumnByBusinessName t (column (filters p ! i)) = Some (cn, col) \<and>
           params out ! i = filterValue col (filter_value (filters p ! i))))"
proof -
  from build_success_shape [OF ok] obtain p :: ParsedIntent and tn t cn s cols where
    p: "parseDescription desc = Inr (Some p)" and
    ft: "findTableByBusinessName contract (target p) = Some (tn, t)" and
    mem: "(tn, t) \<in> set (tables contract)" and
    s: "selectColumn tn t cn = Inr s" and
    res: "list_all2 (\<lambda>f cc. findColumnByBusinessName t (column f) = Some cc) (filters p) cols" and
    le1: "length (filters p) \<le> 1" and
    sql: "sql_query out = assemble [s] tn (map (\<lambda>cc. fst cc @ '' = ?'') cols)" and
    par: "params out = map (\<lambda>(f, cc). filterValue (snd cc) (filter_value f)) (zip (filters p) cols)"
    by blast
  from res have len: "length (filters p) = length cols" by (rule list_all2_lengthD)
  from names mem have tn: "CHR ''?'' \<notin> set tn"
    and cns: "\<forall>(cn, col)\<in>set (Table.columns t). CHR ''?'' \<notin> set cn"
    by auto
  from cns have "\<forall>x\<in>set (map fst (Table.columns t)). CHR ''?'' \<notin> set x" by auto
  then have "CHR ''?'' \<notin> set (join '', '' (map fst (Table.columns t)))"
    by (intro notin_join) simp_all
  with selectColumn_cases [OF s] cns have sq: "CHR ''?'' \<notin> set s" by auto
  have colq: "CHR ''?'' \<notin> set (fst cc)" if "cc \<in> set cols" for cc
  proof -
    from that obtain i where i: "i < length cols" "cols ! i = cc" by (auto simp: in_set_conv_nth)
    with res have "findColumnByBusinessName t (column (filters p ! i)) = Some cc"
      by (auto simp: list_all2_conv_all_nth)
    then have "cc \<in> set (Table.columns t)" by (cases cc) (auto dest: findColumn_mem)
    with cns show ?thesis by auto
  qed
  have count: "count_list (sql_query out) CHR ''?'' = length cols"
  proof (cases cols)
    case Nil
    with sq tn show ?thesis
      by (simp add: sql assemble_def count_list_app count_list_notin)
  next
    case (Cons cc rest)
    with len le1 have rest: "rest = []" by simp
    from Cons colq have "CHR ''?'' \<notin> set (fst cc)" by simp
    with sq tn Cons rest show ?thesis
      by (simp add: sql assemble_def count_list_app count_list_notin)
  qed
  have nth: "\<exists>cn col. findColumnByBusinessName t (column (filters p ! i)) = Some (cn, col) \<and>
           params out ! i = filterValue col (filter_value (filters p ! i))"
    if "i < length (filters p)" for i
  proof -
    from res that have fc: "findColumnByBusinessName t (column (filters p ! i)) = Some (cols ! i)"
      by (auto simp: list_all2_conv_all_nth)
    from that len have "params out ! i = filterValue (snd (cols ! i)) (filter_value (filters p ! i))"
      by (simp add: par)
    with fc show ?thesis by (cases "cols ! i") auto
  qed
  from count len par p ft nth show ?thesis by auto
qed

theorem placeholder_parity_witness:
  "count_list ''SELECT ord_id FROM so_hdr WHERE ord_stat = ?;'' CHR ''?'' = length [PNumber 5]"
proof -
  note e = reference_run_cancelled
  have n: "\<forall>(tn, t)\<in>set (tables reference_contract).
      CHR ''?'' \<notin> set tn \<and> (\<forall>(cn, col)\<in>set (Table.columns t). CHR ''?'' \<notin> set cn)"
    by (simp add: reference_contract_def)
  from placeholder_parity [OF n e] show ?thesis by simp
qed

section \<open>Unresolved names\<close>



section \<open>The filter operator\<close>

text \<open>
  C10. Every filter that an \<open>entities\<close> function of the supported patterns produces, on any
  match array whatsoever, has the operator \<open>=\<close>; so has every filter of a parsed
  description, and in every successful output each WHERE clause is a physical column
  name of the resolved table followed by \<open> = ?\<close>.
\<close>

theorem filter_operator_constant:
  "(\<forall>(rx, ent)\<in>set supportedPatterns. \<forall>m p. ent m = Inr p \<longrightarrow>
      (\<forall>f\<in>set (filters p). operator f = ''='')) \<and>
   (\<forall>p. parseDescription desc = Inr (Some p) \<longrightarrow>
      (\<forall>f\<in>set (filters p). operator f = ''='')) \<and>
   (\<forall>out. buildQueryFromDescriptionLogic contract desc = Inr out \<longrightarrow>
      (\<exists>sel tn t wcols.
         (tn, t) \<in> set (tables contract) \<and>
         set wcols \<subseteq> fst ` set (Table.columns t) \<and>
         sql_query out =
           ''SELECT '' @ sel @ '' FROM '' @ tn @
           (if wcols = [] then [] else '' WHERE '' @ join '' AND '' (map (\<lambda>cn. cn @ '' = ?'') wcols)) @
           '';''))"
proof (intro conjI allI impI)
  show "\<forall>(rx, ent)\<in>set supportedPatterns. \<forall>m p. ent m = Inr p \<longrightarrow>
      (\<forall>f\<in>set (filters p). operator f = ''='')"
  proof (clarify)
    fix rx ent m p f
    assume "(rx, ent) \<in> set supportedPatterns" "ent m = Inr p" "f \<in> set (filters p)"
    with entities_shape [of rx ent m p] show "operator f = ''=''" by auto
  qed
next
  fix p
  assume "parseDescription desc = Inr (Some p)"
  from parse_shape [OF this] show "\<forall>f\<in>set (filters p). operator f = ''=''" by auto
next
  fix out
  assume "buildQueryFromDescriptionLogic contract desc = Inr out"
  from build_success_shape [OF this] obtain p :: ParsedIntent and tn t cn s cols where
    mem: "(tn, t) \<in> set (tables contract)" and
    res: "list_all2 (\<lambda>f cc. findColumnByBusinessName t (column f) = Some cc) (filters p) cols" and
    sql: "sql_query out = assemble [s] tn (map (\<lambda>cc. fst cc @ '' = ?'') cols)"
    by blast
  have "set cols \<subseteq> set (Table.columns t)"
  proof
    fix cc assume "cc \<in> set cols"
    then obtain i where i: "i < length cols" "cols ! i = cc" by (auto simp: in_set_conv_nth)
    with res have "findColumnByBusinessName t (column (filters p ! i)) = Some cc"
      by (auto simp: list_all2_conv_all_nth)
    then show "cc \<in> set (Table.columns t)" by (cases cc) (auto dest: findColumn_mem)
  qed
  then have sub: "set (map fst cols) \<subseteq> fst ` set (Table.columns t)" by auto
  have "sql_query out =
           ''SELECT '' @ s @ '' FROM '' @ tn @
           (if map fst cols = [] then []
            else '' WHERE '' @ join '' AND '' (map (\<lambda>cn. cn @ '' = ?'') (map fst cols))) @ '';''"
    unfolding sql assemble_def by (simp add: comp_def)
  with mem sub show "\<exists>sel tn t wcols.
         (tn, t) \<in> set (tables contract) \<and>
         set wcols \<subseteq> fst ` set (Table.columns t) \<and>
         sql_query out =
           ''SELECT '' @ sel @ '' FROM '' @ tn @
           (if wcols = [] then [] else '' WHERE '' @ join '' AND '' (map (\<lambda>cn. cn @ '' = ?'') wcols)) @
           '';''"
    by blast
qed

theorem filter_operator_constant_witness:
  "\<exists>sel tn t wcols.
         (tn, t) \<in> set (tables reference_contract) \<and>
         set wcols \<subseteq> fst ` set (Table.columns t) \<and>
         ''SELECT ord_id FROM so_hdr WHERE ord_stat = ?;'' =
           ''SELECT '' @ sel @ '' FROM '' @ tn @
           (if wcols = [] then [] else '' WHERE '' @ join '' AND '' (map (\<lambda>cn. cn @ '' = ?'') wcols)) @
           '';''"
proof -
  note e = reference_run_cancelled
  from filter_operator_constant [of "''Which sales orders are cancelled?''" reference_contract]
  have "\<forall>out. buildQueryFromDescriptionLogic reference_contract ''Which sales orders are cancelled?'' = Inr out \<longrightarrow>
      (\<exists>sel tn t wcols.
         (tn, t) \<in> set (tables reference_contract) \<and>
         set wcols \<subseteq> fst ` set (Table.columns t) \<and>
         sql_query out =
           ''SELECT '' @ sel @ '' FROM '' @ tn @
           (if wcols = [] then [] else '' WHERE '' @ join '' AND '' (map (\<lambda>cn. cn @ '' = ?'') wcols)) @
           '';'')"
    by (elim conjE)
  from this [rule_format, OF e] show ?thesis by simp
qed

section \<open>Name resolution, as specified\<close>




section \<open>Value mapping, as specified\<close>



section \<open>The order of the patterns\<close>

text \<open>
  C4, as the spec states it: \<open>parseDescription\<close> returns the extraction of the first pattern
  that matches the full description, and the no-intent result if no pattern does. The
  patterns are searched for in the description: none of them is anchored at the start,
  and the first and the third are not anchored at the end either. The description of the
  first reference scenario ends with a full stop; none of the six patterns matches the
  full description, and the parser returns an intent for it.
\<close>

theorem parse_first_pattern_counterexample:
  "\<not> full_match regex_show_me ''Show me the Customer Name for the customer with ID 4.'' \<and>
   \<not> full_match regex_which_sales_orders ''Show me the Customer Name for the customer with ID 4.'' \<and>
   \<not> full_match regex_list_all ''Show me the Customer Name for the customer with ID 4.'' \<and>
   \<not> full_match regex_what_is_the_name ''Show me the Customer Name for the customer with ID 4.'' \<and>
   \<not> full_match regex_quantity_sold ''Show me the Customer Name for the customer with ID 4.'' \<and>
   \<not> full_match regex_customer_who_placed
       ''Show me the Customer Name for the customer with ID 4.'' \<and>
   parseDescription ''Show me the Customer Name for the customer with ID 4.'' =
     Inr (Some \<lparr>target = ''customer'', columns = [''Customer Name''],
                filters = [\<lparr>column = ''id'', operator = ''='', filter_value = ''4''\<rparr>]\<rparr>)"
  by code_simp

text \<open>
  C4, amended: \<open>parseDescription\<close> evaluates its sentence patterns in fixed source order,
  case-insensitively, and returns the extraction of the first pattern that matches
  somewhere in the description (at some start position; the text before the match, and
  for the first and third pattern the text after it, is ignored); once a pattern
  matches, the later patterns have no influence on the result, and if no pattern matches
  anywhere the parser returns the no-intent result. Case-insensitively: two descriptions
  that are equal in lower case are matched by the same patterns.
\<close>

theorem parse_first_pattern:
  "((\<exists>ps1 rx ent ps2 m.
       supportedPatterns = ps1 @ (rx, ent) # ps2 \<and>
       (\<forall>(r, e)\<in>set ps1. js_match d r = None) \<and>
       js_match d rx = Some m \<and> parseDescription d = map_sum id Some (ent m)) \<or>
    ((\<forall>(r, e)\<in>set supportedPatterns. js_match d r = None) \<and> parseDescription d = Inr None)) \<and>
   (\<forall>(rx, ent)\<in>set supportedPatterns.
      (js_match d rx = None \<longleftrightarrow>
         (\<forall>n\<le>length d. matcher True (pieces rx) (drop n d) = None)) \<and>
      (\<forall>d'. toLowerCase d' = toLowerCase d \<longrightarrow>
         (js_match d' rx = None \<longleftrightarrow> js_match d rx = None)))"
proof (rule conjI)
  show "(\<exists>ps1 rx ent ps2 m.
       supportedPatterns = ps1 @ (rx, ent) # ps2 \<and>
       (\<forall>(r, e)\<in>set ps1. js_match d r = None) \<and>
       js_match d rx = Some m \<and> parseDescription d = map_sum id Some (ent m)) \<or>
    ((\<forall>(r, e)\<in>set supportedPatterns. js_match d r = None) \<and> parseDescription d = Inr None)"
    unfolding parseDescription_def by (rule try_patterns_first)
next
  have ic: "ignoreCase rx = True" if "(rx, ent) \<in> set supportedPatterns" for rx ent
    using that
    by (auto simp: supportedPatterns_def regex_show_me_def regex_which_sales_orders_def
        regex_list_all_def regex_what_is_the_name_def regex_quantity_sold_def
        regex_customer_who_placed_def)
  show "\<forall>(rx, ent)\<in>set supportedPatterns.
      (js_match d rx = None \<longleftrightarrow>
         (\<forall>n\<le>length d. matcher True (pieces rx) (drop n d) = None)) \<and>
      (\<forall>d'. toLowerCase d' = toLowerCase d \<longrightarrow>
         (js_match d' rx = None \<longleftrightarrow> js_match d rx = None))"
  proof (clarify, intro conjI allI impI)
    fix rx ent
    assume m: "(rx, ent) \<in> set supportedPatterns"
    from ic [OF m] search_None_iff [of rx d]
    show "js_match d rx = None \<longleftrightarrow> (\<forall>n\<le>length d. matcher True (pieces rx) (drop n d) = None)"
      by (simp add: js_match_def)
  next
    fix rx ent d'
    assume m: "(rx, ent) \<in> set supportedPatterns" and l: "toLowerCase d' = toLowerCase d"
    from ic [OF m] l show "js_match d' rx = None \<longleftrightarrow> js_match d rx = None"
      by (rule js_match_case_insensitive)
  qed
qed

theorem parse_first_pattern_witness:
  "js_match ''WHICH Sales Orders ARE cancelled?'' regex_which_sales_orders \<noteq> None \<and>
   parseDescription ''gibberish with no structure'' = Inr None"
proof -
  have m: "(regex_which_sales_orders, entities_which_sales_orders) \<in> set supportedPatterns"
    by (simp add: supportedPatterns_def)
  have l: "toLowerCase ''WHICH Sales Orders ARE cancelled?'' =
      toLowerCase ''Which sales orders are cancelled?''"
    by code_simp
  have s: "js_match ''Which sales orders are cancelled?'' regex_which_sales_orders \<noteq> None"
    by code_simp
  from parse_first_pattern [of "''Which sales orders are cancelled?''"]
  have "\<forall>(rx, ent)\<in>set supportedPatterns.
      (js_match ''Which sales orders are cancelled?'' rx = None \<longleftrightarrow>
         (\<forall>n\<le>length ''Which sales orders are cancelled?''.
            matcher True (pieces rx) (drop n ''Which sales orders are cancelled?'') = None)) \<and>
      (\<forall>d'. toLowerCase d' = toLowerCase ''Which sales orders are cancelled?'' \<longrightarrow>
         (js_match d' rx = None \<longleftrightarrow> js_match ''Which sales orders are cancelled?'' rx = None))"
    by (elim conjE)
  from bspec [OF this m] l s
  have 1: "js_match ''WHICH Sales Orders ARE cancelled?'' regex_which_sales_orders \<noteq> None"
    by simp
  have g: "\<forall>(r, e)\<in>set supportedPatterns. js_match ''gibberish with no structure'' r \<noteq> None
             \<longrightarrow> False"
    by code_simp
  let ?A = "\<exists>ps1 rx ent ps2 m.
       supportedPatterns = ps1 @ (rx, ent) # ps2 \<and>
       (\<forall>(r, e)\<in>set ps1. js_match ''gibberish with no structure'' r = None) \<and>
       js_match ''gibberish with no structure'' rx = Some m \<and>
       parseDescription ''gibberish with no structure'' = map_sum id Some (ent m)"
  let ?B = "(\<forall>(r, e)\<in>set supportedPatterns. js_match ''gibberish with no structure'' r = None) \<and>
       parseDescription ''gibberish with no structure'' = Inr None"
  have n: "\<not> ?A"
  proof
    assume ?A
    then obtain ps1 rx ent ps2 m where
      sp: "supportedPatterns = ps1 @ (rx, ent) # ps2" and
      jm: "js_match ''gibberish with no structure'' rx = Some m"
      by (elim exE conjE)
    have "(rx, ent) \<in> set supportedPatterns" unfolding sp by simp
    with g jm show False by fastforce
  qed
  have "?A \<or> ?B" by (rule parse_first_pattern [THEN conjunct1])
  then have 2: "parseDescription ''gibberish with no structure'' = Inr None"
  proof
    assume ?A
    with n show ?thesis by (rule notE)
  next
    assume ?B
    then show ?thesis by (rule conjunct2)
  qed
  from 1 2 show ?thesis by (rule conjI)
qed

section \<open>Unsupported questions\<close>

text \<open>
  C7. For every contract and every order number \<open>N\<close> written in decimal digits, the
  questions "What was the quantity of each product sold in order number N?" and
  "Find the name of the customer who placed order number N." fail with
  \<open>UNSUPPORTED_OPERATION\<close> and return no query; so does every description that no
  pattern matches. (\<open>reference_join_questions\<close> shows how: the first question is claimed
  by its own pattern, which throws; the second, written with its full stop, is matched
  by no pattern, its own being anchored at the end, and fails as any unknown sentence
  does.)
\<close>

theorem join_questions_unsupported:
  assumes "set N \<subseteq> set digit_chars"
  shows "buildQueryFromDescriptionLogic contract
           (''What was the quantity of each product sold in order number '' @ N @ ''?'') =
           Inl \<lparr>code = UNSUPPORTED_OPERATION, message = unsupported_message\<rparr> \<and>
         buildQueryFromDescriptionLogic contract
           (''Find the name of the customer who placed order number '' @ N @ ''.'') =
           Inl \<lparr>code = UNSUPPORTED_OPERATION, message = unsupported_message\<rparr> \<and>
         (\<forall>d. (\<forall>(rx, ent)\<in>set supportedPatterns. js_match d rx = None) \<longrightarrow>
            buildQueryFromDescriptionLogic contract d =
              Inl \<lparr>code = UNSUPPORTED_OPERATION, message = unsupported_message\<rparr>)"
proof (intro conjI allI impI)
  from assms show "buildQueryFromDescriptionLogic contract
           (''What was the quantity of each product sold in order number '' @ N @ ''?'') =
           Inl \<lparr>code = UNSUPPORTED_OPERATION, message = unsupported_message\<rparr>"
    unfolding unsupported_def [symmetric] by (rule quantity_question)
  from assms show "buildQueryFromDescriptionLogic contract
           (''Find the name of the customer who placed order number '' @ N @ ''.'') =
           Inl \<lparr>code = UNSUPPORTED_OPERATION, message = unsupported_message\<rparr>"
    unfolding unsupported_def [symmetric] by (rule customer_question)
next
  fix d
  assume "\<forall>(rx, ent)\<in>set supportedPatterns. js_match d rx = None"
  then have "js_match d regex_show_me = None" "js_match d regex_which_sales_orders = None"
    "js_match d regex_list_all = None" "js_match d regex_what_is_the_name = None"
    by (auto simp: supportedPatterns_def)
  then show "buildQueryFromDescriptionLogic contract d =
              Inl \<lparr>code = UNSUPPORTED_OPERATION, message = unsupported_message\<rparr>"
    unfolding unsupported_def [symmetric] by (rule unsupported_without_query_pattern)
qed

theorem join_questions_unsupported_witness:
  "buildQueryFromDescriptionLogic reference_contract
     ''What was the quantity of each product sold in order number 1001?'' =
     Inl \<lparr>code = UNSUPPORTED_OPERATION, message = unsupported_message\<rparr> \<and>
   buildQueryFromDescriptionLogic reference_contract
     ''Find the name of the customer who placed order number 1004.'' =
     Inl \<lparr>code = UNSUPPORTED_OPERATION, message = unsupported_message\<rparr> \<and>
   buildQueryFromDescriptionLogic reference_contract ''gibberish with no structure'' =
     Inl \<lparr>code = UNSUPPORTED_OPERATION, message = unsupported_message\<rparr>"
proof -
  have a: "set ''1001'' \<subseteq> set digit_chars" by code_simp
  have b: "set ''1004'' \<subseteq> set digit_chars" by code_simp
  have g: "\<forall>(rx, ent)\<in>set supportedPatterns. js_match ''gibberish with no structure'' rx = None"
    by code_simp
  from join_questions_unsupported [OF a, of reference_contract]
  have 1: "buildQueryFromDescriptionLogic reference_contract
     ''What was the quantity of each product sold in order number 1001?'' =
     Inl \<lparr>code = UNSUPPORTED_OPERATION, message = unsupported_message\<rparr>"
    by simp
  from join_questions_unsupported [OF b, of reference_contract]
  have 2: "buildQueryFromDescriptionLogic reference_contract
     ''Find the name of the customer who placed order number 1004.'' =
     Inl \<lparr>code = UNSUPPORTED_OPERATION, message = unsupported_message\<rparr>"
    by simp
  from join_questions_unsupported [OF a, of reference_contract]
  have "\<forall>d. (\<forall>(rx, ent)\<in>set supportedPatterns. js_match d rx = None) \<longrightarrow>
            buildQueryFromDescriptionLogic reference_contract d =
              Inl \<lparr>code = UNSUPPORTED_OPERATION, message = unsupported_message\<rparr>"
    by (elim conjE)
  from this [THEN spec, THEN mp, OF g]
  have 3: "buildQueryFromDescriptionLogic reference_contract ''gibberish with no structure'' =
     Inl \<lparr>code = UNSUPPORTED_OPERATION, message = unsupported_message\<rparr>" .
  from 1 2 3 show ?thesis by (intro conjI)
qed

end
